theory Spec2Isabelle
  imports Main
begin

section \<open>Values, blocks and the object store\<close>

text \<open>
  The programs are Python. A \<open>Block\<close> is a mutable object: \<open>add_block\<close> appends the
  object to \<open>chain\<close> and only then assigns its height, and \<open>hash(block)\<close> is Python's
  default object hash, which depends on the identity of the object and not on its fields
  (\<open>Block\<close> defines neither \<open>__hash__\<close> nor \<open>__eq__\<close>). Blocks therefore live in a
  store indexed by object identity, and a chain is a list of identities.

  Two functions come from outside the repository and are parameters of the model:
  \<open>H\<close>, the builtin \<open>hash\<close> on block objects (a function of the identity), and
  \<open>sha\<close>, \<open>hashlib.sha256(...).hexdigest()\<close> on the encoded message.
\<close>

type_synonym addr = nat

text \<open>The values the fields \<open>previous_block_hash\<close>, \<open>latest_block_hash\<close> and
  \<open>nonce\<close> hold: a string (initially the empty one), an integer (a result of
  \<open>hash\<close>), \<open>None\<close>, or a reference to an object of the store (a block that
  \<open>mine\<close> received and returned in the place of a digest).\<close>

datatype pyval = PStr string | PInt int | PNone | PRef addr

datatype error = IndexError | AssertionError | ZeroDivisionError

record 'tx Block =
  verified_transactions :: "'tx list"
  previous_block_hash :: pyval
  nonce :: pyval
  block_height :: int

text \<open>\<open>Block.__init__\<close>\<close>

definition Block_init :: "'tx Block" where
  "Block_init = \<lparr>verified_transactions = [], previous_block_hash = PStr [],
                  nonce = PStr [], block_height = 0\<rparr>"

record Blockchain =
  latest_block_hash :: pyval
  chainLength :: int
  chain :: "addr list"
  difficulty :: int

text \<open>\<open>Blockchain.__init__\<close>\<close>

definition Blockchain_init :: Blockchain where
  "Blockchain_init = \<lparr>latest_block_hash = PStr [], chainLength = 0, chain = [],
                       difficulty = 2\<rparr>"

text \<open>
  The state of one process: the object store with its next unused identity, the
  module-level \<open>blockchain\<close> and \<open>memPool\<close>, and the contents of the file
  \<open>blockchain_data\<close> (\<open>None\<close> when the file does not exist), one pickled block
  per record.
\<close>

record 'tx node =
  heap :: "addr \<Rightarrow> 'tx Block"
  next_addr :: addr
  blockchain :: Blockchain
  memPool :: "'tx list"
  blockchain_data :: "'tx Block list option"

definition node_init :: "'tx Block list option \<Rightarrow> 'tx node" where
  "node_init f = \<lparr>heap = (\<lambda>_. Block_init), next_addr = 0, blockchain = Blockchain_init,
                   memPool = [], blockchain_data = f\<rparr>"

text \<open>Creating an object (\<open>Block()\<close>, or a block rebuilt by \<open>pickle.load\<close> or received
  from a peer): it gets an identity no live object has.\<close>

definition new_object :: "'tx Block \<Rightarrow> 'tx node \<Rightarrow> addr \<times> 'tx node" where
  "new_object b s =
     (next_addr s, s\<lparr>heap := (heap s)(next_addr s := b), next_addr := Suc (next_addr s)\<rparr>)"

section \<open>MemPool\<close>

definition add_transaction :: "'tx \<Rightarrow> 'tx list \<Rightarrow> 'tx list" where
  "add_transaction t transactions = transactions @ [t]"

text \<open>\<open>nextTransaction = self.transactions[0]\<close> raises \<open>IndexError\<close> on the empty list;
  otherwise \<open>pop(0)\<close> removes the first element.\<close>

fun pull_transaction :: "'tx list \<Rightarrow> error + ('tx \<times> 'tx list)" where
  "pull_transaction [] = Inl IndexError"
| "pull_transaction (t # ts) = Inr (t, ts)"

definition get_size :: "'tx list \<Rightarrow> int" where
  "get_size transactions = int (length transactions)"

section \<open>Blockchain\<close>

text \<open>\<open>persist_block\<close>: appends the pickled block to the file, creating the file if needed.\<close>

definition persist_block :: "addr \<Rightarrow> 'tx node \<Rightarrow> 'tx node" where
  "persist_block newBlock s =
     s\<lparr>blockchain_data :=
         Some ((case blockchain_data s of None \<Rightarrow> [] | Some rs \<Rightarrow> rs) @ [heap s newBlock])\<rparr>"

text \<open>\<open>Blockchain.add_block\<close>, statement by statement.\<close>

definition add_block :: "(addr \<Rightarrow> int) \<Rightarrow> addr \<Rightarrow> bool \<Rightarrow> 'tx node \<Rightarrow> 'tx node" where
  "add_block H newBlock fromFile s =
     (let bc1 = (blockchain s)\<lparr>chain := chain (blockchain s) @ [newBlock]\<rparr>;
          bc2 = bc1\<lparr>latest_block_hash := PInt (H newBlock)\<rparr>;
          bc3 = bc2\<lparr>chainLength := chainLength bc2 + 1\<rparr>;
          s1 = s\<lparr>blockchain := bc3,
                 heap := (heap s)(newBlock := (heap s newBlock)\<lparr>block_height := chainLength bc3\<rparr>)\<rparr>
      in if fromFile = False then persist_block newBlock s1 else s1)"

definition get_chain_length :: "'tx node \<Rightarrow> int" where
  "get_chain_length s = chainLength (blockchain s)"

definition get_last_hash :: "'tx node \<Rightarrow> pyval" where
  "get_last_hash s = latest_block_hash (blockchain s)"

text \<open>
  \<open>verify_chain\<close>: \<open>for i in range(0, self.chainLength-1)\<close>, comparing
  \<open>hash(self.chain[i])\<close> with \<open>self.chain[i+1].previous_block_hash\<close>. Indexing
  \<open>chain\<close> out of range raises \<open>IndexError\<close>.
\<close>

fun verify_loop :: "(addr \<Rightarrow> int) \<Rightarrow> (addr \<Rightarrow> 'tx Block) \<Rightarrow> addr list \<Rightarrow> nat list \<Rightarrow> error + bool" where
  "verify_loop H hp ch [] = Inr True"
| "verify_loop H hp ch (i # is) =
     (if i < length ch \<and> i + 1 < length ch then
        (if PInt (H (ch ! i)) \<noteq> previous_block_hash (hp (ch ! (i + 1))) then Inr False
         else verify_loop H hp ch is)
      else Inl IndexError)"

definition verify_chain :: "(addr \<Rightarrow> int) \<Rightarrow> 'tx node \<Rightarrow> error + bool" where
  "verify_chain H s =
     verify_loop H (heap s) (chain (blockchain s)) [0 ..< nat (chainLength (blockchain s) - 1)]"

text \<open>
  \<open>read_blockchain\<close>: when the file exists, \<open>i = 0; while i < 5:\<close> loads one record
  per iteration and adds it with \<open>fromFile = True\<close>; \<open>EOFError\<close> breaks the loop. The
  body never assigns \<open>i\<close>, so the counter is passed on unchanged.
\<close>

fun read_loop :: "(addr \<Rightarrow> int) \<Rightarrow> int \<Rightarrow> 'tx Block list \<Rightarrow> 'tx node \<Rightarrow> 'tx node" where
  "read_loop H i [] s = s"
| "read_loop H i (r # rs) s =
     (if i < 5 then
        (let (block, s1) = new_object r s in read_loop H i rs (add_block H block True s1))
      else s)"

definition read_blockchain :: "(addr \<Rightarrow> int) \<Rightarrow> 'tx node \<Rightarrow> 'tx node" where
  "read_blockchain H s =
     (case blockchain_data s of None \<Rightarrow> s | Some rs \<Rightarrow> read_loop H 0 rs s)"

section \<open>Strings\<close>

text \<open>\<open>str\<close> on an integer: its decimal digits, with a minus sign below zero.\<close>

definition digit_char :: "nat \<Rightarrow> char" where
  "digit_char n = ''0123456789'' ! n"

fun str_nat :: "nat \<Rightarrow> string" where
  "str_nat n = (if n < 10 then [digit_char n] else str_nat (n div 10) @ [digit_char (n mod 10)])"

declare str_nat.simps [simp del]

definition str_int :: "int \<Rightarrow> string" where
  "str_int k = (if k < 0 then CHR ''-'' # str_nat (nat (- k)) else str_nat (nat k))"

definition startswith :: "string \<Rightarrow> string \<Rightarrow> bool" where
  "startswith s p = (take (length p) s = p)"

section \<open>Miner\<close>

text \<open>The message handed to \<open>sha256\<close>: \<open>str(hash(message)) + str(i)\<close>.\<close>

definition payload :: "(addr \<Rightarrow> int) \<Rightarrow> addr \<Rightarrow> nat \<Rightarrow> string" where
  "payload H message i = str_int (H message) @ str_int (int i)"

text \<open>
  \<open>Miner.mine\<close> of the single-node programs: \<open>for i in range(10000)\<close>, returning the
  first digest that starts with the prefix; when the loop ends without one the function
  returns \<open>None\<close>.
\<close>

fun mine_for :: "(string \<Rightarrow> string) \<Rightarrow> (addr \<Rightarrow> int) \<Rightarrow> addr \<Rightarrow> string \<Rightarrow> nat list \<Rightarrow> pyval" where
  "mine_for sha H message prefix [] = PNone"
| "mine_for sha H message prefix (i # is) =
     (let digest = sha (payload H message i) in
      if startswith digest prefix then PStr digest else mine_for sha H message prefix is)"

definition mine_single :: "(string \<Rightarrow> string) \<Rightarrow> (addr \<Rightarrow> int) \<Rightarrow> addr \<Rightarrow> int \<Rightarrow> error + pyval" where
  "mine_single sha H message d =
     (if \<not> d \<ge> 1 then Inl AssertionError
      else Inr (mine_for sha H message (replicate (nat d) CHR ''0'') [0 ..< 10000]))"

text \<open>
  What the members send each other while mining: a digest, sent with \<open>NONCE_TAG\<close> by a
  member that found one, and a block, sent with \<open>BLOCK_TAG\<close> by \<open>broadcast_block\<close>.
\<close>

datatype 'tx message = Digest string | BlockMsg "'tx Block"

text \<open>
  What a process of the MPI program observes of its peers, in order: the outcome of each
  \<open>subcomm.iprobe()\<close> in \<open>mine\<close> (\<open>None\<close>: no message; \<open>Some m\<close>: a message is
  there and \<open>subcomm.recv()\<close> returns \<open>m\<close>), and the block that
  \<open>subcomm.recv(tag=BLOCK_TAG)\<close> returns in \<open>broadcast_block\<close>. The probe and the
  receive of \<open>mine\<close> name no tag, so the message they take may be of either kind. A
  run is described by a finite list of such events; \<open>None\<close> as a result says that the
  list does not describe a completed call: it ends before the call returns (the loop is
  still polling, or the receive still blocks), or its next event is not one of the call
  the process is in. Sends and barriers do not change the state of the calling process
  and are left out.
\<close>

datatype 'tx event = Probe "'tx message option" | RecvBlock "'tx Block"

text \<open>The \<open>while found is False\<close> loop of the MPI \<open>Miner.mine\<close>, with its counter \<open>i\<close>.\<close>

fun mine_while :: "(string \<Rightarrow> string) \<Rightarrow> (addr \<Rightarrow> int) \<Rightarrow> addr \<Rightarrow> string \<Rightarrow> nat \<Rightarrow> 'tx event list
    \<Rightarrow> (('tx message \<times> bool) \<times> 'tx event list) option" where
  "mine_while sha H message prefix i [] = None"
| "mine_while sha H message prefix i (RecvBlock b # env) = None"
| "mine_while sha H message prefix i (Probe (Some m) # env) = Some ((m, False), env)"
| "mine_while sha H message prefix i (Probe None # env) =
     (let digest = sha (payload H message i) in
      if startswith digest prefix then Some ((Digest digest, True), env)
      else mine_while sha H message prefix (i + 1) env)"

definition mine :: "(string \<Rightarrow> string) \<Rightarrow> (addr \<Rightarrow> int) \<Rightarrow> addr \<Rightarrow> int \<Rightarrow> 'tx event list
    \<Rightarrow> (error + ('tx message \<times> bool) \<times> 'tx event list) option" where
  "mine sha H message d env =
     (if \<not> d \<ge> 1 then Some (Inl AssertionError)
      else map_option Inr (mine_while sha H message (replicate (nat d) CHR ''0'') 0 env))"

text \<open>\<open>Miner.broadcast_block\<close>: the finder adds its own block; every other member adds
  the block it receives, a new object in its own store.\<close>

definition broadcast_block :: "(addr \<Rightarrow> int) \<Rightarrow> addr \<Rightarrow> bool \<Rightarrow> 'tx event list \<Rightarrow> 'tx node
    \<Rightarrow> ('tx node \<times> 'tx event list) option" where
  "broadcast_block H block local env s =
     (if local then Some (add_block H block False s, env)
      else (case env of
              RecvBlock b # env' \<Rightarrow>
                (let (receivedBlock, s1) = new_object b s
                 in Some (add_block H receivedBlock False s1, env'))
            | _ \<Rightarrow> None))"

section \<open>The mining loops of \<open>main\<close>\<close>

text \<open>\<open>Block.add_transaction\<close> and the assignments to fields of a block object.\<close>

definition Block_add_transaction :: "addr \<Rightarrow> 'tx \<Rightarrow> 'tx node \<Rightarrow> 'tx node" where
  "Block_add_transaction b t s =
     s\<lparr>heap := (heap s)(b := (heap s b)\<lparr>verified_transactions := verified_transactions (heap s b) @ [t]\<rparr>)\<rparr>"

definition set_nonce :: "addr \<Rightarrow> pyval \<Rightarrow> 'tx node \<Rightarrow> 'tx node" where
  "set_nonce b v s = s\<lparr>heap := (heap s)(b := (heap s b)\<lparr>nonce := v\<rparr>)\<rparr>"

text \<open>\<open>newBlock.nonce = digest\<close> for what the MPI \<open>mine\<close> returned: a string, or a
  received block, which is a new object of the receiver's store.\<close>

definition assign_nonce :: "addr \<Rightarrow> 'tx message \<Rightarrow> 'tx node \<Rightarrow> 'tx node" where
  "assign_nonce newBlock digest s =
     (case digest of
        Digest d \<Rightarrow> set_nonce newBlock (PStr d) s
      | BlockMsg b \<Rightarrow> (let (r, s1) = new_object b s in set_nonce newBlock (PRef r) s1))"

definition set_previous_block_hash :: "addr \<Rightarrow> pyval \<Rightarrow> 'tx node \<Rightarrow> 'tx node" where
  "set_previous_block_hash b v s = s\<lparr>heap := (heap s)(b := (heap s b)\<lparr>previous_block_hash := v\<rparr>)\<rparr>"

text \<open>\<open>for i in range(forRange): newBlock.add_transaction(memPool.pull_transaction())\<close>\<close>

fun fill_block :: "nat \<Rightarrow> addr \<Rightarrow> 'tx node \<Rightarrow> error + 'tx node" where
  "fill_block 0 newBlock s = Inr s"
| "fill_block (Suc k) newBlock s =
     (case pull_transaction (memPool s) of
        Inl e \<Rightarrow> Inl e
      | Inr (t, ts) \<Rightarrow> fill_block k newBlock (Block_add_transaction newBlock t (s\<lparr>memPool := ts\<rparr>)))"

text \<open>The first statements of the loop body, the same in the three programs: a new
  \<open>Block()\<close>, \<open>forRange = 3\<close> lowered to the pool size, and the pulls.\<close>

definition new_candidate :: "'tx node \<Rightarrow> error + addr \<times> 'tx node" where
  "new_candidate s =
     (let (newBlock, s1) = new_object Block_init s;
          forRange = (if get_size (memPool s1) < 3 then get_size (memPool s1) else 3)
      in case fill_block (nat forRange) newBlock s1 of
           Inl e \<Rightarrow> Inl e
         | Inr s2 \<Rightarrow> Inr (newBlock, s2))"

text \<open>One pass of the loop body of \<open>main\<close> in \<open>multiblockchainDP.py\<close>:
  \<open>Miner.mine(newBlock, difficulty=5)\<close>, then \<open>Miner.broadcast_block\<close>.\<close>

definition mining_round :: "(string \<Rightarrow> string) \<Rightarrow> (addr \<Rightarrow> int) \<Rightarrow> 'tx event list \<Rightarrow> 'tx node
    \<Rightarrow> (error + 'tx node \<times> 'tx event list) option" where
  "mining_round sha H env s =
     (case new_candidate s of
        Inl e \<Rightarrow> Some (Inl e)
      | Inr (newBlock, s2) \<Rightarrow>
          (case mine sha H newBlock 5 env of
             None \<Rightarrow> None
           | Some (Inl e) \<Rightarrow> Some (Inl e)
           | Some (Inr ((digest, minedLocal), env1)) \<Rightarrow>
               map_option Inr (broadcast_block H newBlock minedLocal env1 (assign_nonce newBlock digest s2))))"

text \<open>One pass of the loop body of \<open>main\<close> in \<open>blockchainDynamicPersist.py\<close>:
  \<open>Miner.mine(newBlock, difficulty=2)\<close>, then \<open>blockchain.add_block(newBlock, False)\<close>.\<close>

definition mining_round_single :: "(string \<Rightarrow> string) \<Rightarrow> (addr \<Rightarrow> int) \<Rightarrow> 'tx node \<Rightarrow> error + 'tx node" where
  "mining_round_single sha H s =
     (case new_candidate s of
        Inl e \<Rightarrow> Inl e
      | Inr (newBlock, s2) \<Rightarrow>
          (case mine_single sha H newBlock 2 of
             Inl e \<Rightarrow> Inl e
           | Inr digest \<Rightarrow> Inr (add_block H newBlock False (set_nonce newBlock digest s2))))"

text \<open>Option 3 of the menu of \<open>basicBlockchain.py\<close>: the block is linked to the last
  hash of the ledger before it is mined with the ledger's difficulty.\<close>

definition mine_block_basic :: "(string \<Rightarrow> string) \<Rightarrow> (addr \<Rightarrow> int) \<Rightarrow> 'tx node \<Rightarrow> error + 'tx node" where
  "mine_block_basic sha H s =
     (case new_candidate s of
        Inl e \<Rightarrow> Inl e
      | Inr (tempBlock, s2) \<Rightarrow>
          (let s3 = set_previous_block_hash tempBlock (get_last_hash s2) s2
           in case mine_single sha H tempBlock (difficulty (blockchain s3)) of
                Inl e \<Rightarrow> Inl e
              | Inr digest \<Rightarrow> Inr (add_block H tempBlock False (set_nonce tempBlock digest s3))))"

text \<open>Every pass of a loop body takes at least one transaction out of a non-empty pool;
  this is what makes \<open>while memPool.get_size() > 0\<close> terminate.\<close>

lemma fill_block_memPool:
  "fill_block k a s = Inr s' \<Longrightarrow> length (memPool s') + k = length (memPool s)"
proof (induction k arbitrary: s)
  case 0
  then show ?case by simp
next
  case (Suc k)
  then show ?case
    by (cases "memPool s") (auto simp: Block_add_transaction_def dest!: Suc.IH)
qed

lemma memPool_add_block [simp]: "memPool (add_block H a f s) = memPool s"
  by (simp add: add_block_def persist_block_def Let_def)

lemma memPool_set_nonce [simp]: "memPool (set_nonce a v s) = memPool s"
  by (simp add: set_nonce_def)

lemma memPool_assign_nonce [simp]: "memPool (assign_nonce a m s) = memPool s"
  by (cases m) (simp_all add: assign_nonce_def new_object_def)

lemma new_candidate_memPool:
  assumes "new_candidate s = Inr (a, s')" and "memPool s \<noteq> []"
  shows "length (memPool s') < length (memPool s)"
  using assms
  by (auto simp: new_candidate_def new_object_def get_size_def Let_def
      split: sum.splits if_splits dest!: fill_block_memPool)

lemma broadcast_block_memPool:
  "broadcast_block H a l env s = Some (s', env') \<Longrightarrow> memPool s' = memPool s"
  by (auto simp: broadcast_block_def new_object_def split: if_splits list.splits event.splits)

lemma mining_round_memPool:
  assumes "mining_round sha H env s = Some (Inr (s', env'))" and "memPool s \<noteq> []"
  shows "length (memPool s') < length (memPool s)"
  using assms
  by (auto simp: mining_round_def split: sum.splits option.splits prod.splits
      dest!: new_candidate_memPool broadcast_block_memPool)

lemma mining_round_single_memPool:
  assumes "mining_round_single sha H s = Inr s'" and "memPool s \<noteq> []"
  shows "length (memPool s') < length (memPool s)"
  using assms
  by (auto simp: mining_round_single_def split: sum.splits prod.splits
      dest!: new_candidate_memPool)

text \<open>\<open>while memPool.get_size() > 0:\<close> in \<open>multiblockchainDP.py\<close>.\<close>

function mining_loop :: "(string \<Rightarrow> string) \<Rightarrow> (addr \<Rightarrow> int) \<Rightarrow> 'tx event list \<Rightarrow> 'tx node
    \<Rightarrow> (error + 'tx node) option" where
  "mining_loop sha H env s =
     (if get_size (memPool s) > 0 then
        (case mining_round sha H env s of
           None \<Rightarrow> None
         | Some (Inl e) \<Rightarrow> Some (Inl e)
         | Some (Inr (s', env')) \<Rightarrow> mining_loop sha H env' s')
      else Some (Inr s))"
  by pat_completeness auto
termination
  by (relation "measure (\<lambda>(sha, H, env, s). length (memPool s))")
     (auto simp: get_size_def dest: mining_round_memPool)

declare mining_loop.simps [simp del]

text \<open>\<open>while memPool.get_size() > 0:\<close> in \<open>blockchainDynamicPersist.py\<close>.\<close>

function mining_loop_single :: "(string \<Rightarrow> string) \<Rightarrow> (addr \<Rightarrow> int) \<Rightarrow> 'tx node \<Rightarrow> error + 'tx node" where
  "mining_loop_single sha H s =
     (if get_size (memPool s) > 0 then
        (case mining_round_single sha H s of
           Inl e \<Rightarrow> Inl e
         | Inr s' \<Rightarrow> mining_loop_single sha H s')
      else Inr s)"
  by pat_completeness auto
termination
  by (relation "measure (\<lambda>(sha, H, s). length (memPool s))")
     (auto simp: get_size_def dest: mining_round_single_memPool)

declare mining_loop_single.simps [simp del]

section \<open>Ledger reconciliation\<close>

text \<open>
  \<open>synchronize_ledgers\<close>. A group is the list of its members' states, the member of
  \<open>subcommRank\<close> \<open>i\<close> at index \<open>i\<close>. \<open>allgather\<close> gives every member the list of all
  chain lengths; each member scans it for a length above its own.
\<close>

fun max_scan :: "(nat \<times> int) list \<Rightarrow> int \<times> nat \<Rightarrow> int \<times> nat" where
  "max_scan [] (maxLength, maxLengthRank) = (maxLength, maxLengthRank)"
| "max_scan ((i, len) # rest) (maxLength, maxLengthRank) =
     (if len > maxLength then max_scan rest (len, i)
      else max_scan rest (maxLength, maxLengthRank))"

definition need_sync :: "int list \<Rightarrow> int \<Rightarrow> nat \<Rightarrow> bool" where
  "need_sync ledgerLengths localLength subcommRank =
     (snd (max_scan (enumerate 0 ledgerLengths) (localLength, subcommRank)) \<noteq> subcommRank)"

text \<open>A \<open>Blockchain\<close> object sent to a peer travels pickled, the blocks by value; the
  receiver rebuilds it as new objects of its own store.\<close>

record 'tx pickled_chain =
  p_latest_block_hash :: pyval
  p_chainLength :: int
  p_blocks :: "'tx Block list"
  p_difficulty :: int

definition pickle_blockchain :: "'tx node \<Rightarrow> 'tx pickled_chain" where
  "pickle_blockchain s =
     \<lparr>p_latest_block_hash = latest_block_hash (blockchain s),
      p_chainLength = chainLength (blockchain s),
      p_blocks = map (heap s) (chain (blockchain s)),
      p_difficulty = difficulty (blockchain s)\<rparr>"

fun load_blocks :: "'tx Block list \<Rightarrow> 'tx node \<Rightarrow> addr list \<times> 'tx node" where
  "load_blocks [] s = ([], s)"
| "load_blocks (b # bs) s =
     (let (a, s1) = new_object b s; (as, s2) = load_blocks bs s1 in (a # as, s2))"

definition recv_blockchain :: "'tx pickled_chain \<Rightarrow> 'tx node \<Rightarrow> 'tx node" where
  "recv_blockchain p s =
     (let (as, s1) = load_blocks (p_blocks p) s
      in s1\<lparr>blockchain := \<lparr>latest_block_hash = p_latest_block_hash p, chainLength = p_chainLength p,
                           chain = as, difficulty = p_difficulty p\<rparr>\<rparr>)"

text \<open>\<open>Blockchain.persist\<close>: rewrites the file with the blocks of the chain.\<close>

definition persist :: "'tx node \<Rightarrow> 'tx node" where
  "persist s = s\<lparr>blockchain_data := Some (map (heap s) (chain (blockchain s)))\<rparr>"

text \<open>The state in which the member of rank \<open>subcommRank\<close> leaves
  \<open>synchronize_ledgers\<close>: rank 0 sends its ledger to every member whose flag is set,
  before it looks at its own flag, and a member whose flag is set replaces its ledger by
  the one received from rank 0 and persists it.\<close>

definition synchronize_member :: "'tx node list \<Rightarrow> nat \<Rightarrow> 'tx node" where
  "synchronize_member members subcommRank =
     (let s = members ! subcommRank;
          localLength = get_chain_length s;
          ledgerLengths = map get_chain_length members;
          needSync = need_sync ledgerLengths localLength subcommRank
      in if needSync then persist (recv_blockchain (pickle_blockchain (members ! 0)) s) else s)"

definition synchronize_ledgers :: "'tx node list \<Rightarrow> 'tx node list" where
  "synchronize_ledgers members = map (synchronize_member members) [0 ..< length members]"

section \<open>Start-up of the MPI program\<close>

text \<open>
  The calls one process makes on its communicators, and what it prints for the operator,
  in program order.
\<close>

datatype call = Split int int | Barrier | Allgather | Gather | Bcast | Free | Print_usage

text \<open>\<open>create_subcomm\<close>: \<open>color = rank % numBlockchains\<close> raises
  \<open>ZeroDivisionError\<close> for 0; Python's \<open>%\<close> takes the sign of the divisor, as
  \<open>mod\<close> on \<open>int\<close> does.\<close>

definition create_subcomm :: "int \<Rightarrow> int \<Rightarrow> error + call \<times> int" where
  "create_subcomm rank numBlockchains =
     (if numBlockchains = 0 then Inl ZeroDivisionError
      else (let color = rank mod numBlockchains in Inr (Split color rank, color)))"

text \<open>\<open>check_cla\<close>: \<open>len(sys.argv) == 3\<close>.\<close>

definition check_cla :: "nat \<Rightarrow> bool" where
  "check_cla argc = (argc = 3)"

text \<open>
  The module body runs \<open>create_subcomm(numBlockchains=3)\<close> and \<open>comm.barrier()\<close>
  when the script is loaded; \<open>main\<close> runs after it. With a wrong argument count
  \<open>main\<close> prints the usage line and returns. Otherwise it goes through
  \<open>synchronize_ledgers\<close> (allgather, gather, barrier), the two broadcasts and their
  barrier, one barrier for each mining round (\<open>rounds\<close> of them), and \<open>subcomm.Free()\<close>.
\<close>

definition program_calls :: "int \<Rightarrow> nat \<Rightarrow> nat \<Rightarrow> error + call list" where
  "program_calls rank argc rounds =
     (case create_subcomm rank 3 of
        Inl e \<Rightarrow> Inl e
      | Inr (split, color) \<Rightarrow>
          (if check_cla argc = False then Inr ([split, Barrier] @ [Print_usage])
           else Inr ([split, Barrier] @ [Allgather, Gather, Barrier, Bcast, Bcast, Barrier]
                     @ replicate rounds Barrier @ [Free])))"

section \<open>Ledgers grown by appends\<close>

text \<open>A sequence of calls of \<open>add_block\<close>, each with its block object and its
  \<open>fromFile\<close> flag, applied in order.\<close>

definition add_blocks :: "(addr \<Rightarrow> int) \<Rightarrow> (addr \<times> bool) list \<Rightarrow> 'tx node \<Rightarrow> 'tx node" where
  "add_blocks H calls s = foldl (\<lambda>s (b, fromFile). add_block H b fromFile s) s calls"

section \<open>The proof-of-work condition\<close>


section \<open>Properties of the ledger operations\<close>

lemma add_block_chain_length:
  "chainLength (blockchain (add_block H a f s)) = chainLength (blockchain s) + 1"
  by (simp add: add_block_def persist_block_def Let_def)

lemma add_block_chain:
  "chain (blockchain (add_block H a f s)) = chain (blockchain s) @ [a]"
  by (simp add: add_block_def persist_block_def Let_def)

lemma read_loop_chain_length:
  "chainLength (blockchain (read_loop H 0 rs s)) = chainLength (blockchain s) + int (length rs)"
proof (induction rs arbitrary: s)
  case Nil
  show ?case by simp
next
  case (Cons r rs)
  show ?case
    by (simp add: Cons.IH new_object_def add_block_chain_length)
qed

text \<open>
  C5. Hydration is meant to stop after 5 records. The loop counter of
  \<open>read_blockchain\<close> is never incremented, so a data file holding 6 records gives a
  ledger of 6 blocks: the read is bounded by the end of the data only.
\<close>

theorem read_blockchain_six_records:
  "get_chain_length (read_blockchain H (node_init (Some (replicate 6 Block_init)))) = 6"
  by (simp add: read_blockchain_def get_chain_length_def read_loop_chain_length node_init_def
      Blockchain_init_def)

section \<open>The pool and the pulls of the mining loop\<close>

lemma fill_block_ok:
  "k \<le> length (memPool s) \<Longrightarrow> \<exists>s'. fill_block k a s = Inr s'"
proof (induction k arbitrary: s)
  case 0
  then show ?case by simp
next
  case (Suc k)
  then show ?case
    by (cases "memPool s") (auto simp: Block_add_transaction_def)
qed

lemma new_candidate_ok: "\<exists>a s'. new_candidate s = Inr (a, s')"
proof -
  define s1 where "s1 = s\<lparr>heap := (heap s)(next_addr s := Block_init), next_addr := Suc (next_addr s)\<rparr>"
  define k where "k = nat (if get_size (memPool s1) < 3 then get_size (memPool s1) else 3)"
  have "k \<le> length (memPool s1)" by (simp add: k_def get_size_def)
  then obtain s' where "fill_block k (next_addr s) s1 = Inr s'"
    using fill_block_ok by blast
  then have "new_candidate s = Inr (next_addr s, s')"
    unfolding new_candidate_def new_object_def Let_def k_def s1_def by simp
  then show ?thesis by blast
qed

lemma mine_five_no_error: "mine sha H a 5 env \<noteq> Some (Inl e)"
  by (simp add: mine_def)

lemma mining_round_no_error: "mining_round sha H env s \<noteq> Some (Inl e)"
proof -
  obtain a s' where c: "new_candidate s = Inr (a, s')" using new_candidate_ok by blast
  show ?thesis
    by (auto simp: mining_round_def c mine_def split: option.splits sum.splits)
qed

lemma mining_loop_no_error: "mining_loop sha H env s \<noteq> Some (Inl e)"
proof (induction sha H env s rule: mining_loop.induct)
  case (1 sha H env s)
  show ?case
    using 1 mining_round_no_error [of sha H env s]
    by (subst mining_loop.simps) (auto split: option.splits sum.splits)
qed

text \<open>
  C10. \<open>pull_transaction\<close> on an empty pool raises \<open>IndexError\<close>; on a pool of
  positive size it returns the first (oldest) transaction and leaves the rest, new
  transactions being queued at the end; the pulls of the loop body never raise, because
  \<open>forRange\<close> never exceeds the pool size, and so the mining loop never ends in an error.
\<close>

theorem pull_transaction_contract:
  "pull_transaction ([] :: 'tx list) = Inl IndexError
   \<and> (\<forall>pool :: 'tx list. get_size pool > 0 \<longrightarrow> pull_transaction pool = Inr (hd pool, tl pool))
   \<and> (\<forall>(t :: 'tx) older. pull_transaction (add_transaction t older)
          = (if older = [] then Inr (t, []) else Inr (hd older, add_transaction t (tl older))))
   \<and> (\<forall>(s :: 'tx node) e. new_candidate s \<noteq> Inl e)
   \<and> (\<forall>sha H env (s :: 'tx node) e. mining_loop sha H env s \<noteq> Some (Inl e))"
proof (intro conjI allI impI)
  show "pull_transaction ([] :: 'tx list) = Inl IndexError" by simp
next
  fix pool :: "'tx list" assume "get_size pool > 0"
  then show "pull_transaction pool = Inr (hd pool, tl pool)"
    by (cases pool) (simp_all add: get_size_def)
next
  fix t :: 'tx and older
  show "pull_transaction (add_transaction t older)
          = (if older = [] then Inr (t, []) else Inr (hd older, add_transaction t (tl older)))"
    by (cases older) (simp_all add: add_transaction_def)
next
  fix s :: "'tx node" and e
  show "new_candidate s \<noteq> Inl e" using new_candidate_ok [of s] by auto
next
  fix sha H env and s :: "'tx node" and e
  show "mining_loop sha H env s \<noteq> Some (Inl e)" by (rule mining_loop_no_error)
qed

theorem pull_transaction_contract_witness:
  "get_size [7 :: nat, 8] > 0 \<and> pull_transaction [7 :: nat, 8] = Inr (7, [8])"
  using pull_transaction_contract by (simp add: get_size_def)

section \<open>Lengths, heights and the last hash\<close>

lemma add_block_heap:
  "heap (add_block H a f s) = (heap s)(a := (heap s a)\<lparr>block_height := chainLength (blockchain s) + 1\<rparr>)"
  by (simp add: add_block_def persist_block_def Let_def)

lemma add_block_latest:
  "latest_block_hash (blockchain (add_block H a f s)) = PInt (H a)"
  by (simp add: add_block_def persist_block_def Let_def)

lemma add_blocks_snoc:
  "add_blocks H (calls @ [(a, f)]) s = add_block H a f (add_blocks H calls s)"
  by (simp add: add_blocks_def)

lemma add_blocks_chain:
  "chain (blockchain (add_blocks H calls s)) = chain (blockchain s) @ map fst calls"
proof (induction calls rule: rev_induct)
  case Nil
  show ?case by (simp add: add_blocks_def)
next
  case (snoc c calls)
  then show ?case by (cases c) (simp add: add_blocks_snoc add_block_chain)
qed

lemma add_blocks_chainLength:
  "chainLength (blockchain (add_blocks H calls s)) = chainLength (blockchain s) + int (length calls)"
proof (induction calls rule: rev_induct)
  case Nil
  show ?case by (simp add: add_blocks_def)
next
  case (snoc c calls)
  then show ?case by (cases c) (simp add: add_blocks_snoc add_block_chain_length)
qed

lemma add_blocks_heights:
  assumes "distinct (map fst calls)" and "i < length calls"
  shows "block_height (heap (add_blocks H calls s) (fst (calls ! i)))
           = chainLength (blockchain s) + int i + 1"
  using assms
proof (induction calls rule: rev_induct)
  case Nil
  then show ?case by simp
next
  case (snoc c calls)
  obtain a f where c: "c = (a, f)" by (cases c)
  show ?case
  proof (cases "i < length calls")
    case True
    then have "fst (calls ! i) \<in> set (map fst calls)" by simp
    with snoc.prems c have "fst (calls ! i) \<noteq> a" by auto
    with snoc True c show ?thesis
      by (simp add: add_blocks_snoc add_block_heap nth_append)
  next
    case False
    with snoc.prems have "i = length calls" by simp
    then show ?thesis
      by (simp add: c add_blocks_snoc add_block_heap add_blocks_chainLength)
  qed
qed

lemma add_blocks_latest:
  "latest_block_hash (blockchain (add_blocks H calls s))
     = (if calls = [] then latest_block_hash (blockchain s) else PInt (H (fst (last calls))))"
proof (induction calls rule: rev_induct)
  case Nil
  show ?case by (simp add: add_blocks_def)
next
  case (snoc c calls)
  then show ?case by (cases c) (simp add: add_blocks_snoc add_block_latest)
qed

lemma add_blocks_last_height:
  "calls \<noteq> [] \<Longrightarrow>
     block_height (heap (add_blocks H calls s) (fst (last calls)))
       = chainLength (blockchain s) + int (length calls)"
proof (induction calls rule: rev_induct)
  case Nil
  then show ?case by simp
next
  case (snoc c calls)
  obtain a f where c: "c = (a, f)" by (cases c)
  show ?case
    by (simp add: c add_blocks_snoc add_block_heap add_blocks_chainLength)
qed

text \<open>
  C9, as the code has it. In a ledger created fresh and grown by calls of \<open>add_block\<close>,
  after every call \<open>chainLength\<close> is the number of blocks of \<open>chain\<close>, the chain lists
  the appended objects in order, \<open>latest_block_hash\<close> is the hash of the last appended
  block (the empty string before any append), and the block appended last has the chain
  length as its height, assigned after the append. When the appended blocks are distinct
  objects, the block appended as number \<open>i\<close> (from 0) has height \<open>i + 1\<close>. The
  statement holds for every sequence of calls, so after each of them.
\<close>

theorem add_block_bookkeeping:
  assumes "blockchain s = Blockchain_init"
  shows "chainLength (blockchain (add_blocks H calls s))
           = int (length (chain (blockchain (add_blocks H calls s))))
       \<and> chain (blockchain (add_blocks H calls s)) = map fst calls
       \<and> get_last_hash (add_blocks H calls s)
           = (if calls = [] then PStr [] else PInt (H (fst (last calls))))
       \<and> (calls \<noteq> [] \<longrightarrow>
             block_height (heap (add_blocks H calls s) (fst (last calls))) = int (length calls))
       \<and> (distinct (map fst calls) \<longrightarrow>
             (\<forall>i < length calls.
                block_height (heap (add_blocks H calls s) (fst (calls ! i))) = int i + 1))"
  using assms
  by (simp add: add_blocks_chain add_blocks_chainLength add_blocks_heights add_blocks_latest
      add_blocks_last_height get_last_hash_def Blockchain_init_def)

theorem add_block_bookkeeping_witness:
  "blockchain (node_init None :: nat node) = Blockchain_init
   \<and> [(0 :: addr, False), (1, False), (2, True)] \<noteq> []
   \<and> distinct (map fst [(0 :: addr, False), (1, False), (2, True)])
   \<and> (1 :: nat) < length [(0 :: addr, False), (1, False), (2, True)]
   \<and> chainLength (blockchain (add_blocks int [(0, False), (1, False), (2, True)] (node_init None :: nat node))) = 3
   \<and> chain (blockchain (add_blocks int [(0, False), (1, False), (2, True)] (node_init None :: nat node))) = [0, 1, 2]
   \<and> block_height (heap (add_blocks int [(0, False), (1, False), (2, True)] (node_init None :: nat node)) 1) = 2
   \<and> block_height (heap (add_blocks int [(0, False), (1, False), (2, True)] (node_init None :: nat node)) 2) = 3
   \<and> get_last_hash (add_blocks int [(0, False), (1, False), (2, True)] (node_init None :: nat node)) = PInt 2"
proof -
  have b: "blockchain (node_init None :: nat node) = Blockchain_init"
    by (simp add: node_init_def)
  have d: "distinct (map fst [(0 :: addr, False), (1, False), (2, True)])" by simp
  have i: "(1 :: nat) < length [(0 :: addr, False), (1, False), (2, True)]" by simp
  have n: "[(0 :: addr, False), (1, False), (2, True)] \<noteq> []" by simp
  note t = add_block_bookkeeping [OF b, of int "[(0 :: addr, False), (1, False), (2, True)]"]
  from t d have "\<forall>i < length [(0 :: addr, False), (1, False), (2, True)].
      block_height (heap (add_blocks int [(0, False), (1, False), (2, True)] (node_init None :: nat node))
        (fst ([(0 :: addr, False), (1, False), (2, True)] ! i))) = int i + 1"
    by blast
  from this i have h: "block_height (heap (add_blocks int [(0, False), (1, False), (2, True)]
        (node_init None :: nat node)) (fst ([(0 :: addr, False), (1, False), (2, True)] ! 1))) = int 1 + 1"
    by blast
  from t n have k: "block_height (heap (add_blocks int [(0, False), (1, False), (2, True)]
        (node_init None :: nat node)) (fst (last [(0 :: addr, False), (1, False), (2, True)])))
      = int (length [(0 :: addr, False), (1, False), (2, True)])"
    by blast
  from t have c: "chain (blockchain (add_blocks int [(0, False), (1, False), (2, True)] (node_init None :: nat node)))
      = map fst [(0 :: addr, False), (1, False), (2, True)]" by blast
  from t have l: "chainLength (blockchain (add_blocks int [(0, False), (1, False), (2, True)] (node_init None :: nat node)))
      = int (length (chain (blockchain (add_blocks int [(0, False), (1, False), (2, True)] (node_init None :: nat node)))))"
    by blast
  from t have g: "get_last_hash (add_blocks int [(0, False), (1, False), (2, True)] (node_init None :: nat node))
      = (if [(0 :: addr, False), (1, False), (2, True)] = [] then PStr []
         else PInt (int (fst (last [(0 :: addr, False), (1, False), (2, True)]))))" by blast
  show ?thesis using b h k c l g by simp
qed

text \<open>The same block object appended twice to a fresh ledger: the chain holds it twice
  and its height is 2, so the block appended first does not have height 1.\<close>

theorem add_block_same_object_twice:
  "blockchain (node_init None :: nat node) = Blockchain_init
   \<and> chain (blockchain (add_blocks int [(0, False), (0, False)] (node_init None :: nat node))) = [0, 0]
   \<and> block_height (heap (add_blocks int [(0, False), (0, False)] (node_init None :: nat node)) 0) = 2"
  by (simp add: add_blocks_def add_block_def persist_block_def node_init_def Let_def
      Blockchain_init_def)

section \<open>Decimal strings\<close>













section \<open>What the miner hashes\<close>






section \<open>What the miner returns\<close>






lemma mine_for_first:
  assumes "startswith (sha (payload H a 0)) prefix"
  shows "mine_for sha H a prefix [0 ..< 10000] = PStr (sha (payload H a 0))"
proof -
  have u: "[0 ..< 10000] = 0 # [Suc 0 ..< 10000]" by (rule upt_conv_Cons) simp
  show ?thesis by (simp only: u mine_for.simps Let_def assms if_True)
qed


lemma five_zeros: "replicate 5 CHR ''0'' = ''00000''"
  by (simp add: numeral_eq_Suc)






section \<open>Configuration errors at start-up\<close>

text \<open>
  C6, as the code has it. The module body splits the world communicator (with the
  constant group count 3) and passes \<open>comm.barrier()\<close> before \<open>main\<close> looks at the
  arguments. With a wrong argument count the calls of a process are the split, the
  barrier and the usage line, and nothing after it: no allgather, gather, broadcast or
  mining barrier. \<open>create_subcomm\<close> itself raises \<open>ZeroDivisionError\<close> before the
  split for a group count of 0, and splits with colour \<open>rank % G\<close> for every other
  group count, negative ones included.
\<close>

theorem configuration_errors:
  "(argc \<noteq> 3 \<longrightarrow>
      program_calls rank argc rounds = Inr [Split (rank mod 3) rank, Barrier, Print_usage])
   \<and> create_subcomm rank 0 = Inl ZeroDivisionError
   \<and> (G \<noteq> 0 \<longrightarrow> create_subcomm rank G = Inr (Split (rank mod G) rank, rank mod G))"
  by (simp add: program_calls_def create_subcomm_def check_cla_def Let_def)

theorem configuration_errors_witness:
  "(2 :: nat) \<noteq> 3
   \<and> program_calls 4 2 0 = Inr [Split 1 4, Barrier, Print_usage]
   \<and> (3 :: int) \<noteq> 0
   \<and> create_subcomm 4 3 = Inr (Split 1 4, 1)"
  using configuration_errors [of 2 4 0 3] by simp

text \<open>A run with one argument too few: the split and the barrier come before the usage
  line. A group count of \<open>-2\<close> is not refused: rank 1 splits with colour \<open>-1\<close>.\<close>

theorem collectives_before_argument_check:
  "check_cla 2 = False
   \<and> program_calls 0 2 0 = Inr [Split 0 0, Barrier, Print_usage]
   \<and> (-2 :: int) \<le> 0
   \<and> create_subcomm 1 (-2) = Inr (Split (-1) 1, -1)"
  by (simp add: program_calls_def create_subcomm_def check_cla_def Let_def)

section \<open>The candidate block of a round\<close>

lemma if_same_test: "(if c then x else if c then y else z) = (if c then x else z)"
  by simp

lemma fill_block_result:
  "k \<le> length (memPool s) \<Longrightarrow>
     fill_block k a s =
       Inr (s\<lparr>heap := (heap s)(a := (heap s a)\<lparr>verified_transactions :=
                     verified_transactions (heap s a) @ take k (memPool s)\<rparr>),
              memPool := drop k (memPool s)\<rparr>)"
proof (induction k arbitrary: s)
  case 0
  then show ?case by simp
next
  case (Suc k)
  then obtain t ts where p: "memPool s = t # ts" by (cases "memPool s") auto
  with Suc.prems have k: "k \<le> length ts" by simp
  show ?case
    using k by (simp add: p Suc.IH Block_add_transaction_def if_same_test)
qed

lemma new_candidate_result:
  "new_candidate s =
     Inr (next_addr s,
          s\<lparr>heap := (heap s)(next_addr s := Block_init\<lparr>verified_transactions := take 3 (memPool s)\<rparr>),
            next_addr := Suc (next_addr s),
            memPool := drop 3 (memPool s)\<rparr>)"
proof (cases "length (memPool s) < 3")
  case True
  then show ?thesis
    by (simp add: new_candidate_def new_object_def get_size_def fill_block_result Block_init_def)
next
  case False
  then show ?thesis
    by (simp add: new_candidate_def new_object_def get_size_def fill_block_result Block_init_def)
qed


section \<open>The links of the mined ledger\<close>

lemma mine_local_first:
  assumes "startswith (sha (payload H a 0)) ''00000''"
  shows "mine sha H a 5 (Probe None # env) = Some (Inr ((Digest (sha (payload H a 0)), True), env))"
  using assms by (simp add: mine_def five_zeros)

lemma mining_round_local_first:
  assumes "startswith (sha (payload H (next_addr s) 0)) ''00000''"
  shows "mining_round sha H (Probe None # env) s =
     Some (Inr (add_block H (next_addr s) False
                  (set_nonce (next_addr s) (PStr (sha (payload H (next_addr s) 0)))
                     (s\<lparr>heap := (heap s)(next_addr s :=
                                 Block_init\<lparr>verified_transactions := take 3 (memPool s)\<rparr>),
                        next_addr := Suc (next_addr s),
                        memPool := drop 3 (memPool s)\<rparr>)), env))"
  by (simp add: mining_round_def new_candidate_result mine_local_first [of sha H "next_addr s" env, OF assms]
      broadcast_block_def assign_nonce_def)

lemma mining_loop_step:
  assumes "memPool s \<noteq> []" and "mining_round sha H env s = Some (Inr (s', env'))"
  shows "mining_loop sha H env s = mining_loop sha H env' s'"
  using assms by (subst mining_loop.simps) (simp add: get_size_def)

lemma mining_loop_done:
  assumes "memPool s = []"
  shows "mining_loop sha H env s = Some (Inr s)"
  using assms by (subst mining_loop.simps) (simp add: get_size_def)

text \<open>
  C1. The loop of \<open>main\<close> in \<open>multiblockchainDP.py\<close> never assigns
  \<open>previous_block_hash\<close>. A single member with a fresh ledger and four transactions
  mines two blocks; the second block keeps the empty string as previous hash, which is not
  the hash of the first block, and \<open>verify_chain\<close> returns \<open>False\<close> on the ledger.
\<close>

theorem mined_ledger_not_linked:
  "\<exists>s'. mining_loop ((@) ''00000'') int [Probe None, Probe None]
           ((node_init None)\<lparr>memPool := [1, 2, 3, 4 :: nat]\<rparr>) = Some (Inr s')
        \<and> chain (blockchain s') = [0, 1]
        \<and> memPool s' = []
        \<and> previous_block_hash (heap s' 1) = PStr []
        \<and> verify_chain int s' = Inr False"
proof -
  define s0 :: "nat node" where "s0 = (node_init None)\<lparr>memPool := [1, 2, 3, 4]\<rparr>"
  define s1 where "s1 = add_block int (next_addr s0) False
      (set_nonce (next_addr s0) (PStr ((@) ''00000'' (payload int (next_addr s0) 0)))
         (s0\<lparr>heap := (heap s0)(next_addr s0 :=
                     Block_init\<lparr>verified_transactions := take 3 (memPool s0)\<rparr>),
            next_addr := Suc (next_addr s0),
            memPool := drop 3 (memPool s0)\<rparr>))"
  define s2 where "s2 = add_block int (next_addr s1) False
      (set_nonce (next_addr s1) (PStr ((@) ''00000'' (payload int (next_addr s1) 0)))
         (s1\<lparr>heap := (heap s1)(next_addr s1 :=
                     Block_init\<lparr>verified_transactions := take 3 (memPool s1)\<rparr>),
            next_addr := Suc (next_addr s1),
            memPool := drop 3 (memPool s1)\<rparr>))"
  have st0: "startswith ((@) ''00000'' (payload int (next_addr s0) 0)) ''00000''"
    by (simp add: startswith_def)
  have st1: "startswith ((@) ''00000'' (payload int (next_addr s1) 0)) ''00000''"
    by (simp add: startswith_def)
  have r1: "mining_round ((@) ''00000'') int [Probe None, Probe None] s0 = Some (Inr (s1, [Probe None]))"
    unfolding s1_def
    by (rule mining_round_local_first [of "(@) ''00000''" int s0 "[Probe None]", OF st0])
  have r2: "mining_round ((@) ''00000'') int [Probe None] s1 = Some (Inr (s2, []))"
    unfolding s2_def
    by (rule mining_round_local_first [of "(@) ''00000''" int s1 "[]", OF st1])
  have m0: "memPool s0 = [1, 2, 3, 4]" by (simp add: s0_def)
  have m1: "memPool s1 = [4]" by (simp add: s1_def set_nonce_def m0)
  have m2: "memPool s2 = []" by (simp add: s2_def set_nonce_def m1)
  have "mining_loop ((@) ''00000'') int [Probe None, Probe None] s0
      = mining_loop ((@) ''00000'') int [Probe None] s1"
    by (rule mining_loop_step [OF _ r1]) (simp add: m0)
  also have "\<dots> = mining_loop ((@) ''00000'') int [] s2"
    by (rule mining_loop_step [OF _ r2]) (simp add: m1)
  also have "\<dots> = Some (Inr s2)" by (rule mining_loop_done [OF m2])
  finally have l: "mining_loop ((@) ''00000'') int [Probe None, Probe None] s0 = Some (Inr s2)" .
  have n0: "next_addr s0 = 0" by (simp add: s0_def node_init_def)
  have n1: "next_addr s1 = 1"
    by (simp add: s1_def add_block_def persist_block_def set_nonce_def n0 Let_def)
  have c0: "chain (blockchain s0) = []" by (simp add: s0_def node_init_def Blockchain_init_def)
  have c1: "chain (blockchain s1) = [0]"
    by (simp add: s1_def add_block_chain set_nonce_def c0 n0)
  have c: "chain (blockchain s2) = [0, 1]"
    by (simp add: s2_def add_block_chain set_nonce_def c1 n1)
  have k0: "chainLength (blockchain s0) = 0"
    by (simp add: s0_def node_init_def Blockchain_init_def)
  have k1: "chainLength (blockchain s1) = 1"
    by (simp add: s1_def add_block_chain_length set_nonce_def k0)
  have cl: "chainLength (blockchain s2) = 2"
    by (simp add: s2_def add_block_chain_length set_nonce_def k1)
  have p: "previous_block_hash (heap s2 1) = PStr []"
    by (simp add: s2_def add_block_heap n1 set_nonce_def Block_init_def)
  have p': "previous_block_hash (heap s2 (Suc 0)) = PStr []" using p by simp
  have v: "verify_chain int s2 = Inr False"
    by (simp add: verify_chain_def c cl p')
  from l c m2 p v show ?thesis unfolding s0_def by blast
qed

section \<open>What \<open>verify_chain\<close> checks\<close>

lemma verify_loop_links:
  "(\<forall>i \<in> set is. i + 1 < length ch) \<Longrightarrow>
     verify_loop H hp ch is
       = Inr (\<forall>i \<in> set is. PInt (H (ch ! i)) = previous_block_hash (hp (ch ! (i + 1))))"
  by (induction "is") auto

lemma verify_loop_heap:
  "(\<And>x. previous_block_hash (hp x) = previous_block_hash (hp' x)) \<Longrightarrow>
     verify_loop H hp ch is = verify_loop H hp' ch is"
  by (induction "is") auto

lemma verify_chain_links:
  assumes "chainLength (blockchain s) = int (length (chain (blockchain s)))"
  shows "verify_chain H s
           = Inr (\<forall>i. i + 1 < length (chain (blockchain s)) \<longrightarrow>
                    PInt (H (chain (blockchain s) ! i))
                      = previous_block_hash (heap s (chain (blockchain s) ! (i + 1))))"
proof -
  let ?ch = "chain (blockchain s)"
  have n: "nat (chainLength (blockchain s) - 1) = length ?ch - 1" using assms by simp
  have "\<forall>i \<in> set [0 ..< length ?ch - 1]. i + 1 < length ?ch" by auto
  then have "verify_loop H (heap s) ?ch [0 ..< length ?ch - 1]
      = Inr (\<forall>i \<in> set [0 ..< length ?ch - 1].
               PInt (H (?ch ! i)) = previous_block_hash (heap s (?ch ! (i + 1))))"
    by (rule verify_loop_links)
  moreover have "(\<forall>i \<in> set [0 ..< length ?ch - 1].
               PInt (H (?ch ! i)) = previous_block_hash (heap s (?ch ! (i + 1))))
      = (\<forall>i. i + 1 < length ?ch \<longrightarrow>
               PInt (H (?ch ! i)) = previous_block_hash (heap s (?ch ! (i + 1))))"
    by auto
  ultimately show ?thesis by (simp only: verify_chain_def n)
qed

lemma verify_chain_transactions:
  "verify_chain H (s\<lparr>heap := (heap s)(a := (heap s a)\<lparr>verified_transactions := txs\<rparr>)\<rparr>)
     = verify_chain H s"
proof -
  have "verify_loop H ((heap s)(a := (heap s a)\<lparr>verified_transactions := txs\<rparr>))
          (chain (blockchain s)) [0 ..< nat (chainLength (blockchain s) - 1)]
      = verify_loop H (heap s) (chain (blockchain s)) [0 ..< nat (chainLength (blockchain s) - 1)]"
    by (rule verify_loop_heap) simp
  then show ?thesis by (simp add: verify_chain_def)
qed

text \<open>
  C2, as the code has it. On a ledger whose \<open>chainLength\<close> is the number of its blocks
  (as \<open>add_block\<close> keeps it), \<open>verify_chain\<close> returns true exactly when every block
  after the first holds the hash of the block before it. The hash is that of the block
  object, so assigning any transaction list to any block leaves the result of
  \<open>verify_chain\<close> as it was.
\<close>

theorem verify_chain_meaning:
  "(chainLength (blockchain s) = int (length (chain (blockchain s))) \<longrightarrow>
      verify_chain H s
        = Inr (\<forall>i. i + 1 < length (chain (blockchain s)) \<longrightarrow>
                 PInt (H (chain (blockchain s) ! i))
                   = previous_block_hash (heap s (chain (blockchain s) ! (i + 1)))))
   \<and> verify_chain H (s\<lparr>heap := (heap s)(a := (heap s a)\<lparr>verified_transactions := txs\<rparr>)\<rparr>)
        = verify_chain H s
   \<and> verify_chain H (Block_add_transaction a t s) = verify_chain H s"
  using verify_chain_links [of s H] verify_chain_transactions [of H s a]
  by (simp add: Block_add_transaction_def)

lemma two_zeros: "replicate 2 CHR ''0'' = ''00''"
  by (simp add: numeral_eq_Suc)

lemma mine_block_basic_first:
  assumes "difficulty (blockchain s) = 2"
    and "startswith (sha (payload H (next_addr s) 0)) ''00''"
  shows "mine_block_basic sha H s =
     Inr (add_block H (next_addr s) False
            (set_nonce (next_addr s) (PStr (sha (payload H (next_addr s) 0)))
               (set_previous_block_hash (next_addr s) (latest_block_hash (blockchain s))
                  (s\<lparr>heap := (heap s)(next_addr s :=
                              Block_init\<lparr>verified_transactions := take 3 (memPool s)\<rparr>),
                     next_addr := Suc (next_addr s),
                     memPool := drop 3 (memPool s)\<rparr>))))"
proof -
  have "mine_for sha H (next_addr s) ''00'' [0 ..< 10000] = PStr (sha (payload H (next_addr s) 0))"
    using assms(2) by (rule mine_for_first)
  then show ?thesis
    by (simp add: mine_block_basic_def new_candidate_result get_last_hash_def
        set_previous_block_hash_def mine_single_def assms(1) two_zeros Let_def)
qed


lemma basic_two_blocks:
  "\<exists>s1 s2. mine_block_basic ((@) ''00'') int ((node_init None)\<lparr>memPool := [1, 2, 3, 4 :: nat]\<rparr>) = Inr s1
      \<and> mine_block_basic ((@) ''00'') int s1 = Inr s2
      \<and> chain (blockchain s2) = [0, 1]
      \<and> chainLength (blockchain s2) = 2
      \<and> previous_block_hash (heap s2 (Suc 0)) = PInt 0
      \<and> verified_transactions (heap s2 0) = [1, 2, 3]"
proof -
  define s0 :: "nat node" where "s0 = (node_init None)\<lparr>memPool := [1, 2, 3, 4]\<rparr>"
  define s1 where "s1 = add_block int (next_addr s0) False
      (set_nonce (next_addr s0) (PStr ((@) ''00'' (payload int (next_addr s0) 0)))
         (set_previous_block_hash (next_addr s0) (latest_block_hash (blockchain s0))
            (s0\<lparr>heap := (heap s0)(next_addr s0 :=
                        Block_init\<lparr>verified_transactions := take 3 (memPool s0)\<rparr>),
               next_addr := Suc (next_addr s0),
               memPool := drop 3 (memPool s0)\<rparr>)))"
  define s2 where "s2 = add_block int (next_addr s1) False
      (set_nonce (next_addr s1) (PStr ((@) ''00'' (payload int (next_addr s1) 0)))
         (set_previous_block_hash (next_addr s1) (latest_block_hash (blockchain s1))
            (s1\<lparr>heap := (heap s1)(next_addr s1 :=
                        Block_init\<lparr>verified_transactions := take 3 (memPool s1)\<rparr>),
               next_addr := Suc (next_addr s1),
               memPool := drop 3 (memPool s1)\<rparr>)))"
  have d0: "difficulty (blockchain s0) = 2"
    by (simp add: s0_def node_init_def Blockchain_init_def)
  have d1: "difficulty (blockchain s1) = 2"
    by (simp add: s1_def add_block_def persist_block_def set_nonce_def
        set_previous_block_hash_def d0 Let_def)
  have st0: "startswith ((@) ''00'' (payload int (next_addr s0) 0)) ''00''"
    by (simp add: startswith_def)
  have st1: "startswith ((@) ''00'' (payload int (next_addr s1) 0)) ''00''"
    by (simp add: startswith_def)
  have r1: "mine_block_basic ((@) ''00'') int s0 = Inr s1"
    unfolding s1_def by (rule mine_block_basic_first [of s0 "(@) ''00''" int, OF d0 st0])
  have r2: "mine_block_basic ((@) ''00'') int s1 = Inr s2"
    unfolding s2_def by (rule mine_block_basic_first [of s1 "(@) ''00''" int, OF d1 st1])
  have n0: "next_addr s0 = 0" by (simp add: s0_def node_init_def)
  have n1: "next_addr s1 = Suc 0"
    by (simp add: s1_def add_block_def persist_block_def set_nonce_def
        set_previous_block_hash_def n0 Let_def)
  have c0: "chain (blockchain s0) = []" by (simp add: s0_def node_init_def Blockchain_init_def)
  have c1: "chain (blockchain s1) = [0]"
    by (simp add: s1_def add_block_chain set_nonce_def set_previous_block_hash_def c0 n0)
  have c: "chain (blockchain s2) = [0, 1]"
    by (simp add: s2_def add_block_chain set_nonce_def set_previous_block_hash_def c1 n1)
  have k0: "chainLength (blockchain s0) = 0"
    by (simp add: s0_def node_init_def Blockchain_init_def)
  have k1: "chainLength (blockchain s1) = 1"
    by (simp add: s1_def add_block_chain_length set_nonce_def set_previous_block_hash_def k0)
  have cl: "chainLength (blockchain s2) = 2"
    by (simp add: s2_def add_block_chain_length set_nonce_def set_previous_block_hash_def k1)
  have h1: "latest_block_hash (blockchain s1) = PInt 0"
    by (simp add: s1_def add_block_latest n0)
  have p: "previous_block_hash (heap s2 (Suc 0)) = PInt 0"
    by (simp add: s2_def add_block_heap n1 set_nonce_def set_previous_block_hash_def h1)
  have t0: "verified_transactions (heap s1 0) = [1, 2, 3]"
    by (simp add: s1_def add_block_heap n0 set_nonce_def set_previous_block_hash_def
        s0_def node_init_def)
  have t: "verified_transactions (heap s2 0) = [1, 2, 3]"
    by (simp add: s2_def add_block_heap n1 set_nonce_def set_previous_block_hash_def t0)
  from r1 r2 c cl p t show ?thesis unfolding s0_def by blast
qed

theorem verify_chain_meaning_witness:
  "chainLength (blockchain (projr (mine_block_basic ((@) ''00'') int
              (projr (mine_block_basic ((@) ''00'') int
                 ((node_init None)\<lparr>memPool := [1, 2, 3, 4 :: nat]\<rparr>)))))) = int (length (chain (blockchain (projr (mine_block_basic ((@) ''00'') int
              (projr (mine_block_basic ((@) ''00'') int
                 ((node_init None)\<lparr>memPool := [1, 2, 3, 4 :: nat]\<rparr>))))))))
   \<and> verify_chain int (projr (mine_block_basic ((@) ''00'') int
              (projr (mine_block_basic ((@) ''00'') int
                 ((node_init None)\<lparr>memPool := [1, 2, 3, 4 :: nat]\<rparr>)))))
        = Inr (\<forall>i. i + 1 < length (chain (blockchain (projr (mine_block_basic ((@) ''00'') int
              (projr (mine_block_basic ((@) ''00'') int
                 ((node_init None)\<lparr>memPool := [1, 2, 3, 4 :: nat]\<rparr>))))))) \<longrightarrow>
                 PInt (int (chain (blockchain (projr (mine_block_basic ((@) ''00'') int
              (projr (mine_block_basic ((@) ''00'') int
                 ((node_init None)\<lparr>memPool := [1, 2, 3, 4 :: nat]\<rparr>)))))) ! i))
                   = previous_block_hash (heap (projr (mine_block_basic ((@) ''00'') int
              (projr (mine_block_basic ((@) ''00'') int
                 ((node_init None)\<lparr>memPool := [1, 2, 3, 4 :: nat]\<rparr>))))) (chain (blockchain (projr (mine_block_basic ((@) ''00'') int
              (projr (mine_block_basic ((@) ''00'') int
                 ((node_init None)\<lparr>memPool := [1, 2, 3, 4 :: nat]\<rparr>)))))) ! (i + 1))))"
proof -
  obtain s1 s2 where
    r1: "mine_block_basic ((@) ''00'') int ((node_init None)\<lparr>memPool := [1, 2, 3, 4 :: nat]\<rparr>) = Inr s1"
    and r2: "mine_block_basic ((@) ''00'') int s1 = Inr s2"
    and c: "chain (blockchain s2) = [0, 1]" and cl: "chainLength (blockchain s2) = 2"
    using basic_two_blocks by blast
  have L: "(projr (mine_block_basic ((@) ''00'') int
              (projr (mine_block_basic ((@) ''00'') int
                 ((node_init None)\<lparr>memPool := [1, 2, 3, 4 :: nat]\<rparr>))))) = s2" by (simp only: r1 r2 sum.sel)
  have k: "chainLength (blockchain s2) = int (length (chain (blockchain s2)))"
    by (simp add: c cl)
  from verify_chain_meaning [of s2 int] k show ?thesis unfolding L by blast
qed

text \<open>
  Two blocks mined one after the other by option 3 of \<open>basicBlockchain.py\<close>: the second
  holds the hash of the first and \<open>verify_chain\<close> returns \<open>True\<close>. A transaction is
  then appended to the list of the first block, without mining again, and
  \<open>verify_chain\<close> still returns \<open>True\<close>.
\<close>

theorem mutation_not_detected:
  "verify_chain int (projr (mine_block_basic ((@) ''00'') int
              (projr (mine_block_basic ((@) ''00'') int
                 ((node_init None)\<lparr>memPool := [1, 2, 3, 4 :: nat]\<rparr>))))) = Inr True
   \<and> verified_transactions (heap (projr (mine_block_basic ((@) ''00'') int
              (projr (mine_block_basic ((@) ''00'') int
                 ((node_init None)\<lparr>memPool := [1, 2, 3, 4 :: nat]\<rparr>))))) 0) = [1, 2, 3]
   \<and> verified_transactions (heap (Block_add_transaction 0 99 (projr (mine_block_basic ((@) ''00'') int
              (projr (mine_block_basic ((@) ''00'') int
                 ((node_init None)\<lparr>memPool := [1, 2, 3, 4 :: nat]\<rparr>)))))) 0) = [1, 2, 3, 99]
   \<and> verify_chain int (Block_add_transaction 0 99 (projr (mine_block_basic ((@) ''00'') int
              (projr (mine_block_basic ((@) ''00'') int
                 ((node_init None)\<lparr>memPool := [1, 2, 3, 4 :: nat]\<rparr>)))))) = Inr True"
proof -
  obtain s1 s2 where
    r1: "mine_block_basic ((@) ''00'') int ((node_init None)\<lparr>memPool := [1, 2, 3, 4 :: nat]\<rparr>) = Inr s1"
    and r2: "mine_block_basic ((@) ''00'') int s1 = Inr s2"
    and c: "chain (blockchain s2) = [0, 1]" and cl: "chainLength (blockchain s2) = 2"
    and p: "previous_block_hash (heap s2 (Suc 0)) = PInt 0"
    and t: "verified_transactions (heap s2 0) = [1, 2, 3]"
    using basic_two_blocks by blast
  have L: "(projr (mine_block_basic ((@) ''00'') int
              (projr (mine_block_basic ((@) ''00'') int
                 ((node_init None)\<lparr>memPool := [1, 2, 3, 4 :: nat]\<rparr>))))) = s2" by (simp only: r1 r2 sum.sel)
  have v: "verify_chain int s2 = Inr True"
    by (simp add: verify_chain_def c cl p)
  have m: "verified_transactions (heap (Block_add_transaction 0 99 s2) 0) = [1, 2, 3, 99]"
    by (simp add: Block_add_transaction_def t)
  have w: "verify_chain int (Block_add_transaction 0 99 s2) = Inr True"
    by (simp add: verify_chain_def Block_add_transaction_def c cl p)
  from v t m w show ?thesis unfolding L by blast
qed

section \<open>Reconciliation\<close>

lemma max_scan_rank:
  assumes "\<forall>(i, l) \<in> set xs. i = r \<longrightarrow> l \<le> m" and "m \<le> m'"
  shows "(snd (max_scan xs (m', r')) = r) = (r' = r \<and> (\<forall>(i, l) \<in> set xs. l \<le> m'))"
  using assms
proof (induction xs arbitrary: m' r')
  case Nil
  show ?case by simp
next
  case (Cons x xs)
  obtain i l where x: "x = (i, l)" by (cases x)
  from Cons.prems have tl: "\<forall>(i, l) \<in> set xs. i = r \<longrightarrow> l \<le> m" by simp
  show ?case
  proof (cases "l > m'")
    case True
    with Cons.prems x have ir: "i \<noteq> r" by auto
    from True Cons.prems have "m \<le> l" by simp
    from Cons.IH [OF tl this, of i] ir True show ?thesis by (simp add: x)
  next
    case False
    from Cons.IH [OF tl Cons.prems(2), of r'] False show ?thesis by (simp add: x)
  qed
qed

lemma need_sync_iff:
  assumes "r < length lens"
  shows "need_sync lens (lens ! r) r = (\<exists>l \<in> set lens. lens ! r < l)"
proof -
  have a: "\<forall>(i, l) \<in> set (enumerate 0 lens). i = r \<longrightarrow> l \<le> lens ! r"
    by (auto simp: in_set_enumerate_eq)
  have "(snd (max_scan (enumerate 0 lens) (lens ! r, r)) = r)
      = (r = r \<and> (\<forall>(i, l) \<in> set (enumerate 0 lens). l \<le> lens ! r))"
    by (rule max_scan_rank [OF a]) simp
  moreover have "(\<forall>(i, l) \<in> set (enumerate 0 lens). l \<le> lens ! r) = (\<forall>l \<in> set lens. l \<le> lens ! r)"
  proof
    assume h: "\<forall>(i, l) \<in> set (enumerate 0 lens). l \<le> lens ! r"
    show "\<forall>l \<in> set lens. l \<le> lens ! r"
    proof
      fix l assume "l \<in> set lens"
      then obtain i where "i < length lens" and "lens ! i = l" by (auto simp: in_set_conv_nth)
      then have "(i, l) \<in> set (enumerate 0 lens)" by (simp add: in_set_enumerate_eq)
      with h show "l \<le> lens ! r" by blast
    qed
  next
    assume h: "\<forall>l \<in> set lens. l \<le> lens ! r"
    show "\<forall>(i, l) \<in> set (enumerate 0 lens). l \<le> lens ! r"
    proof (clarify)
      fix i l assume "(i, l) \<in> set (enumerate 0 lens)"
      then have "i < length lens" and "lens ! i = l" by (simp_all add: in_set_enumerate_eq)
      then have "l \<in> set lens" by auto
      with h show "l \<le> lens ! r" by blast
    qed
  qed
  ultimately show ?thesis by (auto simp: need_sync_def not_le)
qed

lemma load_blocks_next_addr:
  "load_blocks bs s = (as, s') \<Longrightarrow> next_addr s \<le> next_addr s'"
proof (induction bs arbitrary: s as s')
  case Nil
  then show ?case by simp
next
  case (Cons b bs)
  then show ?case
    by (auto simp: new_object_def split: prod.splits dest!: Cons.IH)
qed

lemma load_blocks_old:
  "load_blocks bs s = (as, s') \<Longrightarrow> x < next_addr s \<Longrightarrow> heap s' x = heap s x"
proof (induction bs arbitrary: s as s')
  case Nil
  then show ?case by simp
next
  case (Cons b bs)
  then show ?case
    by (auto simp: new_object_def split: prod.splits dest!: Cons.IH)
qed

lemma load_blocks_contents:
  "load_blocks bs s = (as, s') \<Longrightarrow> map (heap s') as = bs"
proof (induction bs arbitrary: s as s')
  case Nil
  then show ?case by auto
next
  case (Cons b bs)
  obtain as1 s1 where l: "load_blocks bs (snd (new_object b s)) = (as1, s1)"
    by (cases "load_blocks bs (snd (new_object b s))")
  from Cons.prems l have as: "as = next_addr s # as1" and s': "s' = s1"
    by (simp_all add: new_object_def)
  have "heap s1 (next_addr s) = heap (snd (new_object b s)) (next_addr s)"
    by (rule load_blocks_old [OF l]) (simp add: new_object_def)
  then have "heap s1 (next_addr s) = b" by (simp add: new_object_def)
  moreover have "map (heap s1) as1 = bs" by (rule Cons.IH [OF l])
  ultimately show ?case by (simp add: as s')
qed

lemma recv_blockchain_length:
  "chainLength (blockchain (recv_blockchain p s)) = p_chainLength p"
  by (simp add: recv_blockchain_def split: prod.splits)

lemma recv_blockchain_blocks:
  "map (heap (recv_blockchain p s)) (chain (blockchain (recv_blockchain p s))) = p_blocks p"
proof -
  obtain as s1 where l: "load_blocks (p_blocks p) s = (as, s1)"
    by (cases "load_blocks (p_blocks p) s")
  from load_blocks_contents [OF l] show ?thesis by (simp add: recv_blockchain_def l)
qed

lemma synchronize_member_result:
  assumes "i < length members"
  shows "synchronize_member members i =
     (if \<exists>m \<in> set members. get_chain_length (members ! i) < get_chain_length m
      then persist (recv_blockchain (pickle_blockchain (members ! 0)) (members ! i))
      else members ! i)"
proof -
  have "need_sync (map get_chain_length members) (map get_chain_length members ! i) i
      = (\<exists>l \<in> set (map get_chain_length members). map get_chain_length members ! i < l)"
    by (rule need_sync_iff) (simp add: assms)
  then show ?thesis using assms by (auto simp: synchronize_member_def Let_def)
qed


lemma persist_recv_length:
  "get_chain_length (persist (recv_blockchain (pickle_blockchain a) s)) = get_chain_length a"
  by (simp add: get_chain_length_def persist_def recv_blockchain_length pickle_blockchain_def)

lemma persist_recv_blocks:
  "map (heap (persist (recv_blockchain (pickle_blockchain a) s)))
       (chain (blockchain (persist (recv_blockchain (pickle_blockchain a) s))))
     = map (heap a) (chain (blockchain a))"
  using recv_blockchain_blocks [of "pickle_blockchain a" s]
  by (simp add: persist_def pickle_blockchain_def)

lemma persist_recv_file:
  "blockchain_data (persist (recv_blockchain (pickle_blockchain a) s))
     = Some (map (heap a) (chain (blockchain a)))"
  using recv_blockchain_blocks [of "pickle_blockchain a" s]
  by (simp add: persist_def pickle_blockchain_def)

text \<open>
  C4. In a group whose member of rank 0 holds a ledger of maximum length, after
  \<open>synchronize_ledgers\<close> every member reports that length. A member that was behind
  holds a copy of the blocks of rank 0, in its ledger and in its file; a member that
  already had the maximum length keeps its state.
\<close>

theorem synchronize_ledgers_lengths:
  assumes "members \<noteq> []"
    and "\<forall>m \<in> set members. get_chain_length m \<le> get_chain_length (members ! 0)"
  shows "length (synchronize_ledgers members) = length members
     \<and> (\<forall>i < length members.
           get_chain_length (synchronize_ledgers members ! i) = get_chain_length (members ! 0))
     \<and> (\<forall>i < length members.
           get_chain_length (members ! i) < get_chain_length (members ! 0) \<longrightarrow>
             map (heap (synchronize_ledgers members ! i))
                 (chain (blockchain (synchronize_ledgers members ! i)))
               = map (heap (members ! 0)) (chain (blockchain (members ! 0)))
             \<and> blockchain_data (synchronize_ledgers members ! i)
               = Some (map (heap (members ! 0)) (chain (blockchain (members ! 0)))))
     \<and> (\<forall>i < length members.
           get_chain_length (members ! i) = get_chain_length (members ! 0) \<longrightarrow>
             synchronize_ledgers members ! i = members ! i)"
proof -
  have zero: "members ! 0 \<in> set members" using assms(1) by simp
  have behind: "(\<exists>m \<in> set members. get_chain_length (members ! i) < get_chain_length m)
      = (get_chain_length (members ! i) < get_chain_length (members ! 0))" for i
    using assms(2) zero by (meson less_le_trans)
  have sync: "synchronize_ledgers members ! i =
     (if get_chain_length (members ! i) < get_chain_length (members ! 0)
      then persist (recv_blockchain (pickle_blockchain (members ! 0)) (members ! i))
      else members ! i)" if "i < length members" for i
    using that by (simp add: synchronize_ledgers_def synchronize_member_result behind)
  have le: "get_chain_length (members ! i) \<le> get_chain_length (members ! 0)"
    if "i < length members" for i
    using that assms(2) by simp
  show ?thesis
  proof (intro conjI allI impI)
    show "length (synchronize_ledgers members) = length members"
      by (simp add: synchronize_ledgers_def)
  next
    fix i assume i: "i < length members"
    show "get_chain_length (synchronize_ledgers members ! i) = get_chain_length (members ! 0)"
      using le [OF i] by (simp add: sync [OF i] persist_recv_length)
  next
    fix i assume i: "i < length members"
      and b: "get_chain_length (members ! i) < get_chain_length (members ! 0)"
    show "map (heap (synchronize_ledgers members ! i))
                 (chain (blockchain (synchronize_ledgers members ! i)))
               = map (heap (members ! 0)) (chain (blockchain (members ! 0)))"
      using b by (simp add: sync [OF i] persist_recv_blocks)
  next
    fix i assume i: "i < length members"
      and b: "get_chain_length (members ! i) < get_chain_length (members ! 0)"
    show "blockchain_data (synchronize_ledgers members ! i)
               = Some (map (heap (members ! 0)) (chain (blockchain (members ! 0))))"
      using b by (simp add: sync [OF i] persist_recv_file)
  next
    fix i assume i: "i < length members"
      and e: "get_chain_length (members ! i) = get_chain_length (members ! 0)"
    show "synchronize_ledgers members ! i = members ! i"
      using e by (simp add: sync [OF i])
  qed
qed

lemma read_blockchain_length:
  "get_chain_length (read_blockchain H (node_init (Some rs))) = int (length rs)"
  by (simp add: read_blockchain_def get_chain_length_def read_loop_chain_length node_init_def
      Blockchain_init_def)

theorem synchronize_ledgers_lengths_witness:
  "[read_blockchain int (node_init (Some [Block_init, Block_init, Block_init])),
    read_blockchain int (node_init (Some [Block_init, Block_init, Block_init])),
    read_blockchain int (node_init (Some [Block_init])),
    read_blockchain int (node_init (Some [Block_init, Block_init, Block_init])) :: nat node] \<noteq> []
   \<and> (2 :: nat) < length
        [read_blockchain int (node_init (Some [Block_init, Block_init, Block_init])),
         read_blockchain int (node_init (Some [Block_init, Block_init, Block_init])),
         read_blockchain int (node_init (Some [Block_init])),
         read_blockchain int (node_init (Some [Block_init, Block_init, Block_init])) :: nat node]
   \<and> get_chain_length (read_blockchain int (node_init (Some [Block_init])) :: nat node) = 1
   \<and> get_chain_length (synchronize_ledgers
        [read_blockchain int (node_init (Some [Block_init, Block_init, Block_init])),
         read_blockchain int (node_init (Some [Block_init, Block_init, Block_init])),
         read_blockchain int (node_init (Some [Block_init])),
         read_blockchain int (node_init (Some [Block_init, Block_init, Block_init])) :: nat node] ! 2) = 3"
proof -
  define m3 :: "nat node"
    where "m3 = read_blockchain int (node_init (Some [Block_init, Block_init, Block_init]))"
  define m1 :: "nat node" where "m1 = read_blockchain int (node_init (Some [Block_init]))"
  have l3: "get_chain_length m3 = 3" by (simp add: m3_def read_blockchain_length)
  have l1: "get_chain_length m1 = 1" by (simp add: m1_def read_blockchain_length)
  have n: "[m3, m3, m1, m3] \<noteq> []" by simp
  have a: "\<forall>m \<in> set [m3, m3, m1, m3]. get_chain_length m \<le> get_chain_length ([m3, m3, m1, m3] ! 0)"
    by (simp add: l3 l1)
  have i: "(2 :: nat) < length [m3, m3, m1, m3]" by simp
  from synchronize_ledgers_lengths [OF n a]
  have "\<forall>i < length [m3, m3, m1, m3].
      get_chain_length (synchronize_ledgers [m3, m3, m1, m3] ! i)
        = get_chain_length ([m3, m3, m1, m3] ! 0)" by blast
  with i have "get_chain_length (synchronize_ledgers [m3, m3, m1, m3] ! 2)
      = get_chain_length ([m3, m3, m1, m3] ! 0)" by blast
  then have "get_chain_length (synchronize_ledgers [m3, m3, m1, m3] ! 2) = 3" by (simp add: l3)
  with n i l1 show ?thesis unfolding m3_def m1_def by blast
qed

end
